theory Spec2Isabelle
  imports Main
begin

section \<open>youtube\_dl\_gui/utils.py: get\_time and TwoWayOrderedDict\<close>

subsection \<open>Python values and exceptions\<close>

text \<open>
  The elements stored in a TwoWayOrderedDict are arbitrary Python objects. The model has
  the kinds of object the documentation and the defaults of the class use
  (\<^verbatim>\<open>None\<close>, integers, strings), any other object whose \<^verbatim>\<open>==\<close> is an equivalence as
  \<open>PyObj\<close> (such objects are taken up to \<^verbatim>\<open>==\<close>), and the one standard value whose
  \<^verbatim>\<open>==\<close> is not reflexive: a float NaN. \<open>PyNaN n\<close> is a NaN object, the number
  \<open>n\<close> telling one such object from another. Objects whose \<^verbatim>\<open>__eq__\<close> raises are
  not values of this type.

  So HOL equality on \<open>pyobj\<close> is ``the same object, or equal by \<^verbatim>\<open>==\<close>'': the
  comparison that \<^verbatim>\<open>list.remove\<close> and the comparison of tuples make
  (\<^verbatim>\<open>PyObject_RichCompareBool\<close>, identity first). The operator \<^verbatim>\<open>==\<close> itself, which
  \<^verbatim>\<open>__setitem__\<close>, \<^verbatim>\<open>_find_item\<close> and \<^verbatim>\<open>_get_value\<close> apply to the components, is
  \<open>py_eq\<close>: it is false on a NaN, also against the same object.
\<close>

datatype 'a pyobj = PyNone | PyInt int | PyStr string | PyNaN nat | PyObj 'a

fun is_nan :: "'a pyobj \<Rightarrow> bool" where
  "is_nan (PyNaN n) = True"
| "is_nan x = False"

definition py_eq :: "'a pyobj \<Rightarrow> 'a pyobj \<Rightarrow> bool" where
  "py_eq a b = (a = b \<and> \<not> is_nan a)"

text \<open>
  \<^verbatim>\<open>KeyError(arg)\<close> carries its argument: the missing key in \<^verbatim>\<open>_find_item\<close>,
  a message in \<^verbatim>\<open>popitem\<close>. \<^verbatim>\<open>ValueError\<close> is what \<^verbatim>\<open>list.remove\<close> raises,
  and the unpacking of a tuple that is not a pair.
\<close>

datatype 'a error = KeyError "'a pyobj" | ValueError

type_synonym 'a item = "'a pyobj \<times> 'a pyobj"

text \<open>The only attribute of the class, \<^verbatim>\<open>self._items\<close>: a list of 2-tuples.\<close>

type_synonym 'a items = "'a item list"

subsection \<open>get\_time\<close>

text \<open>
  \<^verbatim>\<open>
  dtime = dict(seconds=0, minutes=0, hours=0, days=0)
  dtime['days'] = int(seconds / 86400)
  dtime['hours'] = int(seconds % 86400 / 3600)
  dtime['minutes'] = int(seconds % 86400 % 3600 / 60)
  dtime['seconds'] = int(seconds % 86400 % 3600 % 60)
  \<close>
  The module is Python 2 without \<^verbatim>\<open>from __future__ import division\<close>: on integers
  \<^verbatim>\<open>/\<close> is floor division and \<^verbatim>\<open>%\<close> takes the sign of the divisor, as
  \<open>div\<close> and \<open>mod\<close> on \<open>int\<close> do; \<^verbatim>\<open>%\<close> and \<^verbatim>\<open>/\<close> associate to the left.
  The model is the function on integers; the dictionary is a map from its keys.
\<close>

definition get_time :: "int \<Rightarrow> (string \<rightharpoonup> int)" where
  "get_time seconds =
     (let dtime = [''seconds'' \<mapsto> 0, ''minutes'' \<mapsto> 0, ''hours'' \<mapsto> 0, ''days'' \<mapsto> 0];
          dtime = dtime(''days'' \<mapsto> seconds div 86400);
          dtime = dtime(''hours'' \<mapsto> seconds mod 86400 div 3600);
          dtime = dtime(''minutes'' \<mapsto> seconds mod 86400 mod 3600 div 60);
          dtime = dtime(''seconds'' \<mapsto> seconds mod 86400 mod 3600 mod 60)
      in dtime)"

subsection \<open>Lookup\<close>

text \<open>
  \<^verbatim>\<open>_find_item\<close>: the first item, in list order, one of whose two components equals
  the key; \<^verbatim>\<open>KeyError(key)\<close> when there is none.
\<close>

fun find_item :: "'a items \<Rightarrow> 'a pyobj \<Rightarrow> 'a error + 'a item" where
  "find_item [] key = Inl (KeyError key)"
| "find_item (item # rest) key =
     (if py_eq key (fst item) \<or> py_eq key (snd item) then Inr item else find_item rest key)"

text \<open>\<^verbatim>\<open>_get_value\<close>: falls off the end, returning \<^verbatim>\<open>None\<close>, when neither matches.\<close>

definition get_value :: "'a pyobj \<Rightarrow> 'a item \<Rightarrow> 'a pyobj" where
  "get_value key item =
     (if py_eq key (fst item) then snd item
      else if py_eq key (snd item) then fst item
      else PyNone)"

text \<open>\<^verbatim>\<open>__getitem__\<close>: the \<^verbatim>\<open>except KeyError\<close> clause raises the same error again.\<close>

definition getitem :: "'a items \<Rightarrow> 'a pyobj \<Rightarrow> 'a error + 'a pyobj" where
  "getitem items key =
     (case find_item items key of
        Inl error \<Rightarrow> Inl error
      | Inr item \<Rightarrow> Inr (get_value key item))"

text \<open>\<^verbatim>\<open>__len__\<close>.\<close>

definition len :: "'a items \<Rightarrow> nat" where
  "len items = length items"

subsection \<open>Insertion\<close>

text \<open>
  \<^verbatim>\<open>list.remove(x)\<close> deletes the first element that is \<open>x\<close> or equal to \<open>x\<close>
  (for the tuples of \<^verbatim>\<open>_items\<close>: component by component, identity first) and raises
  \<^verbatim>\<open>ValueError\<close> when there is none.
\<close>

definition list_remove :: "'b \<Rightarrow> 'b list \<Rightarrow> 'a error + 'b list" where
  "list_remove x xs = (if x \<in> set xs then Inr (remove1 x xs) else Inl ValueError)"

text \<open>
  The \<^verbatim>\<open>while\<close> loop of \<^verbatim>\<open>__setitem__\<close>. A method that mutates \<^verbatim>\<open>self._items\<close>
  returns what it raised or returned together with the list as it is then.
\<close>

function setitem_loop ::
  "'a items \<Rightarrow> 'a pyobj \<Rightarrow> 'a pyobj \<Rightarrow> nat \<Rightarrow> ('a error + unit) \<times> 'a items" where
  "setitem_loop items key val index =
     (if index < length items then
        (let item = items ! index in
         if py_eq key (fst item) \<or> py_eq key (snd item) \<or>
            py_eq val (fst item) \<or> py_eq val (snd item) then
           (case list_remove item items of
              Inl error \<Rightarrow> (Inl error, items)
            | Inr items' \<Rightarrow> setitem_loop items' key val index)
         else setitem_loop items key val (index + 1))
      else (Inr (), items))"
  by pat_completeness auto
termination
proof (relation "measure (\<lambda>(items, key, val, index). length items - index)")
  show "wf (measure (\<lambda>(items :: 'a items, key :: 'a pyobj, val :: 'a pyobj, index). length items - index))"
    by simp
next
  fix items :: "'a items" and key val :: "'a pyobj" and index :: nat
    and item :: "'a item" and items' :: "'a items"
  assume "index < length items" and "item = items ! index"
    and "list_remove item items = (Inr items' :: 'a error + 'a items)"
  then have "length items' + 1 = length items"
    by (auto simp: list_remove_def length_remove1 split: if_splits)
  with \<open>index < length items\<close>
  show "((items', key, val, index), (items, key, val, index))
        \<in> measure (\<lambda>(items, key, val, index). length items - index)"
    by simp
next
  fix items :: "'a items" and key val :: "'a pyobj" and index :: nat
    and item :: "'a item"
  assume "index < length items"
  then show "((items, key, val, index + 1), (items, key, val, index))
        \<in> measure (\<lambda>(items, key, val, index). length items - index)"
    by simp
qed

declare setitem_loop.simps [simp del]

definition setitem :: "'a items \<Rightarrow> 'a pyobj \<Rightarrow> 'a pyobj \<Rightarrow> ('a error + unit) \<times> 'a items" where
  "setitem items key val =
     (case setitem_loop items key val 0 of
        (Inl error, items') \<Rightarrow> (Inl error, items')
      | (Inr _, items') \<Rightarrow> (Inr (), items' @ [(key, val)]))"

text \<open>
  The loop \<^verbatim>\<open>for key, value in item: self.__setitem__(key, value)\<close> of
  \<^verbatim>\<open>_load_into_dict\<close> over pairs that are not stored in a list the program can
  reach (the fresh list \<^verbatim>\<open>item.items()\<close> of a dict, or \<^verbatim>\<open>kwargs.items()\<close>).
\<close>

fun load_pairs :: "'a items \<Rightarrow> 'a items \<Rightarrow> ('a error + unit) \<times> 'a items" where
  "load_pairs items [] = (Inr (), items)"
| "load_pairs items ((key, val) # rest) =
     (case setitem items key val of
        (Inl error, items') \<Rightarrow> (Inl error, items')
      | (Inr _, items') \<Rightarrow> load_pairs items' rest)"

subsection \<open>Removal\<close>



text \<open>\<^verbatim>\<open>popitem\<close>: \<^verbatim>\<open>list.pop()\<close> takes the last element, under the emptiness check.\<close>

definition popitem :: "'a items \<Rightarrow> ('a error + 'a item) \<times> 'a items" where
  "popitem items =
     (if length items = 0
      then (Inl (KeyError (PyStr ''popitem(): dictionary is empty'')), items)
      else (Inr (last items), butlast items))"


text \<open>\<^verbatim>\<open>clear\<close>: \<^verbatim>\<open>del self._items[:]\<close> empties the list in place.\<close>

definition clear :: "'a items \<Rightarrow> 'a items" where
  "clear items = []"

subsection \<open>Objects that share lists: construction, update and copy\<close>

text \<open>
  \<^verbatim>\<open>items()\<close> returns \<^verbatim>\<open>self._items\<close> itself, and \<^verbatim>\<open>copy()\<close> passes that very list
  to the constructor, which reads it while it fills the list of the new object. So these
  methods are modelled over a store of list objects: the address of a list is its index in
  the store, and a TwoWayOrderedDict is the address of its \<^verbatim>\<open>_items\<close>, which no method
  rebinds.
\<close>

type_synonym 'a heap = "'a items list"

text \<open>
  An element of a sequence argument: a 2-tuple \<^verbatim>\<open>(key, value)\<close>, or a 1-tuple
  \<^verbatim>\<open>(x,)\<close>, which \<^verbatim>\<open>for key, value in item\<close> cannot unpack (\<^verbatim>\<open>ValueError\<close>).
\<close>

datatype 'a entry = Entry2 "'a pyobj" "'a pyobj" | Entry1 "'a pyobj"

text \<open>
  A positional argument of \<^verbatim>\<open>__init__\<close> and \<^verbatim>\<open>update\<close>: a dict, given by the list of
  pairs that its \<^verbatim>\<open>items()\<close> builds; a list of pairs that lives in the store (the
  \<^verbatim>\<open>_items\<close> of some TwoWayOrderedDict); or a sequence of tuples that the store does not
  hold, such as a list display.
\<close>

datatype 'a arg = ArgDict "'a items" | ArgList nat | ArgSeq "'a entry list"

text \<open>A method that works on \<^verbatim>\<open>self._items\<close> only, called on the object \<open>self\<close>.\<close>

definition call :: "('a items \<Rightarrow> 'r \<times> 'a items) \<Rightarrow> 'a heap \<Rightarrow> nat \<Rightarrow> 'r \<times> 'a heap" where
  "call meth h self = (case meth (h ! self) of (r, items') \<Rightarrow> (r, h[self := items']))"

text \<open>The list that \<^verbatim>\<open>items()\<close> returns, as it reads in the store \<open>h\<close>.\<close>

definition dict_items :: "'a heap \<Rightarrow> nat \<Rightarrow> 'a items" where
  "dict_items h self = h ! self"

text \<open>
  \<^verbatim>\<open>for key, value in item: self.__setitem__(key, value)\<close> over a sequence of tuples
  that the store does not hold: the unpacking fails at the first tuple that is not a pair,
  after the pairs before it have been inserted.
\<close>

fun load_entries :: "'a items \<Rightarrow> 'a entry list \<Rightarrow> ('a error + unit) \<times> 'a items" where
  "load_entries items [] = (Inr (), items)"
| "load_entries items (Entry2 key val # rest) =
     (case setitem items key val of
        (Inl error, items') \<Rightarrow> (Inl error, items')
      | (Inr _, items') \<Rightarrow> load_entries items' rest)"
| "load_entries items (Entry1 x # rest) = (Inl ValueError, items)"

text \<open>
  The same loop when \<^verbatim>\<open>item\<close> is the list at address \<open>src\<close>: the iterator of a Python
  list holds an index and compares it with the current length before each step, and the
  list may be the one being filled. Then the loop need not end: on a list that holds a
  pair of two NaNs, \<^verbatim>\<open>d.update(d.items())\<close> appends that pair again at every step and
  never reaches the end. \<open>None\<close> is a run that does not return.
\<close>

partial_function (option) h_load_list ::
  "'a heap \<Rightarrow> nat \<Rightarrow> nat \<Rightarrow> nat \<Rightarrow> (('a error + unit) \<times> 'a heap) option" where
  "h_load_list h self src index =
     (if index < length (h ! src) then
        (case h ! src ! index of (key, val) \<Rightarrow>
           (case setitem (h ! self) key val of
              (Inl error, items') \<Rightarrow> Some (Inl error, h[self := items'])
            | (Inr _, items') \<Rightarrow> h_load_list (h[self := items']) self src (index + 1)))
      else Some (Inr (), h))"

text \<open>\<^verbatim>\<open>_load_into_dict\<close>: the positional arguments in order, then the keyword arguments.\<close>

fun load_args ::
  "'a heap \<Rightarrow> nat \<Rightarrow> 'a arg list \<Rightarrow> (('a error + unit) \<times> 'a heap) option" where
  "load_args h self [] = Some (Inr (), h)"
| "load_args h self (item # rest) =
     (case (case item of
              ArgDict d \<Rightarrow> Some (call (\<lambda>items. load_pairs items d) h self)
            | ArgList src \<Rightarrow> h_load_list h self src 0
            | ArgSeq entries \<Rightarrow> Some (call (\<lambda>items. load_entries items entries) h self)) of
        None \<Rightarrow> None
      | Some (Inl error, h') \<Rightarrow> Some (Inl error, h')
      | Some (Inr _, h') \<Rightarrow> load_args h' self rest)"

definition load_into_dict ::
  "'a heap \<Rightarrow> nat \<Rightarrow> 'a arg list \<Rightarrow> 'a items \<Rightarrow> (('a error + unit) \<times> 'a heap) option" where
  "load_into_dict h self args kwargs =
     (case load_args h self args of
        None \<Rightarrow> None
      | Some (Inl error, h') \<Rightarrow> Some (Inl error, h')
      | Some (Inr _, h') \<Rightarrow> Some (call (\<lambda>items. load_pairs items kwargs) h' self))"

text \<open>
  \<^verbatim>\<open>__init__\<close>: \<^verbatim>\<open>self._items = list()\<close> is a new list, at the next free address; the
  result is the new object.
\<close>

definition init ::
  "'a heap \<Rightarrow> 'a arg list \<Rightarrow> 'a items \<Rightarrow> (('a error + nat) \<times> 'a heap) option" where
  "init h args kwargs =
     (let self = length h; h = h @ [[]] in
      case load_into_dict h self args kwargs of
        None \<Rightarrow> None
      | Some (Inl error, h') \<Rightarrow> Some (Inl error, h')
      | Some (Inr _, h') \<Rightarrow> Some (Inr self, h'))"

definition update ::
  "'a heap \<Rightarrow> nat \<Rightarrow> 'a arg list \<Rightarrow> 'a items \<Rightarrow> (('a error + unit) \<times> 'a heap) option" where
  "update h self args kwargs = load_into_dict h self args kwargs"

text \<open>\<^verbatim>\<open>copy\<close>: \<^verbatim>\<open>TwoWayOrderedDict(self._items)\<close>.\<close>

definition copy :: "'a heap \<Rightarrow> nat \<Rightarrow> (('a error + nat) \<times> 'a heap) option" where
  "copy h self = init h [ArgList self] []"

subsection \<open>Predicates used to state the properties\<close>

text \<open>The condition under which the loop of \<^verbatim>\<open>__setitem__\<close> removes an item.\<close>

definition collides :: "'a pyobj \<Rightarrow> 'a pyobj \<Rightarrow> 'a item \<Rightarrow> bool" where
  "collides key val item =
     (py_eq key (fst item) \<or> py_eq key (snd item) \<or> py_eq val (fst item) \<or> py_eq val (snd item))"

text \<open>
  \<open>occurs x items\<close>: \<open>x\<close> matches, by \<^verbatim>\<open>==\<close>, the first or the second component of
  some item; this is \<^verbatim>\<open>__contains__\<close>.
\<close>

fun occurs :: "'a pyobj \<Rightarrow> 'a items \<Rightarrow> bool" where
  "occurs x [] = False"
| "occurs x (item # rest) = (py_eq x (fst item) \<or> py_eq x (snd item) \<or> occurs x rest)"

text \<open>No component of an item matches, by \<^verbatim>\<open>==\<close>, a component of another item.\<close>

fun well_formed :: "'a items \<Rightarrow> bool" where
  "well_formed [] = True"
| "well_formed (item # rest) =
     (\<not> occurs (fst item) rest \<and> \<not> occurs (snd item) rest \<and> well_formed rest)"

section \<open>Properties\<close>

subsection \<open>What the loop of \_\_setitem\_\_ computes\<close>

lemma remove1_nth:
  "index < length xs \<Longrightarrow> xs ! index \<notin> set (take index xs)
   \<Longrightarrow> remove1 (xs ! index) xs = take index xs @ drop (Suc index) xs"
proof -
  assume a: "index < length xs" and b: "xs ! index \<notin> set (take index xs)"
  have "xs = take index xs @ xs ! index # drop (Suc index) xs"
    using a by (simp add: id_take_nth_drop)
  then have "remove1 (xs ! index) xs = remove1 (xs ! index) (take index xs @ xs ! index # drop (Suc index) xs)"
    by simp
  also have "\<dots> = take index xs @ drop (Suc index) xs"
    using b by (simp add: remove1_append)
  finally show ?thesis .
qed

lemma setitem_loop_eq:
  "\<forall>p \<in> set (take index items). \<not> collides key val p
   \<Longrightarrow> setitem_loop items key val index
       = (Inr (), take index items @ filter (\<lambda>p. \<not> collides key val p) (drop index items))"
proof (induction items key val index rule: setitem_loop.induct)
  case (1 items key val index)
  show ?case
  proof (cases "index < length items")
    case False
    then show ?thesis by (subst setitem_loop.simps) simp
  next
    case True
    let ?item = "items ! index"
    have split: "drop index items = ?item # drop (Suc index) items"
      using True by (simp add: Cons_nth_drop_Suc)
    show ?thesis
    proof (cases "collides key val ?item")
      case hit: True
      have notin: "?item \<notin> set (take index items)"
        using "1.prems" hit by auto
      have rm: "remove1 ?item items = take index items @ drop (Suc index) items"
        using True notin by (rule remove1_nth)
      have lr: "list_remove ?item items = (Inr (remove1 ?item items) :: 'a error + 'a items)"
        using True by (simp add: list_remove_def)
      have tk: "take index (remove1 ?item items) = take index items"
        using True by (simp add: rm)
      have dr: "drop index (remove1 ?item items) = drop (Suc index) items"
        using True by (simp add: rm)
      have ih: "setitem_loop (remove1 ?item items) key val index
          = (Inr (), take index (remove1 ?item items)
               @ filter (\<lambda>p. \<not> collides key val p) (drop index (remove1 ?item items)))"
        using "1.IH"(1)[OF True refl _ lr] hit "1.prems" tk by (simp add: collides_def)
      show ?thesis
        using True hit lr ih
        by (subst setitem_loop.simps) (simp add: collides_def tk dr split)
    next
      case miss: False
      have tk: "take (Suc index) items = take index items @ [?item]"
        using True by (simp add: take_Suc_conv_app_nth)
      have ih: "setitem_loop items key val (Suc index)
          = (Inr (), take (Suc index) items
               @ filter (\<lambda>p. \<not> collides key val p) (drop (Suc index) items))"
        using "1.IH"(2)[OF True refl] miss "1.prems" by (simp add: collides_def tk)
      show ?thesis
        using True miss
        by (subst setitem_loop.simps) (simp add: collides_def ih tk split)
    qed
  qed
qed

lemma setitem_eq:
  "setitem items key val = (Inr (), filter (\<lambda>p. \<not> collides key val p) items @ [(key, val)])"
  by (simp add: setitem_def setitem_loop_eq)

subsection \<open>Auxiliary facts\<close>

lemma py_eq_sym: "py_eq a b \<Longrightarrow> py_eq b a"
  by (auto simp: py_eq_def)

lemma py_eq_same: "py_eq a b \<Longrightarrow> a = b"
  by (simp add: py_eq_def)

lemma py_eq_refl: "py_eq a a \<longleftrightarrow> \<not> is_nan a"
  by (simp add: py_eq_def)

lemma occurs_iff: "occurs x items \<longleftrightarrow> (\<exists>p \<in> set items. py_eq x (fst p) \<or> py_eq x (snd p))"
  by (induction items) auto

lemma well_formed_append:
  "well_formed (xs @ ys) \<longleftrightarrow>
     well_formed xs \<and> well_formed ys \<and> (\<forall>p \<in> set xs. \<not> occurs (fst p) ys \<and> \<not> occurs (snd p) ys)"
  by (induction xs) (auto simp: occurs_iff)









subsection \<open>Loading from the store\<close>

lemma load_pairs_keeps_well_formed:
  "well_formed (items @ pairs) \<Longrightarrow> load_pairs items pairs = (Inr (), items @ pairs)"
proof (induction pairs arbitrary: items)
  case Nil
  then show ?case by simp
next
  case (Cons p pairs)
  obtain key val where p: "p = (key, val)" by (cases p)
  from Cons.prems have "\<forall>q \<in> set items. \<not> collides key val q"
    by (auto simp: p well_formed_append collides_def dest: py_eq_sym)
  then have same: "filter (\<lambda>q. \<not> collides key val q) items = items"
    by (simp add: filter_id_conv)
  from Cons.prems have "well_formed ((items @ [(key, val)]) @ pairs)"
    by (simp add: p)
  from Cons.IH[OF this] show ?case
    by (simp add: p setitem_eq same)
qed


lemma h_load_list_other:
  "self < length h \<Longrightarrow> self \<noteq> src \<Longrightarrow>
   h_load_list h self src index
     = Some (Inr (), h[self := snd (load_pairs (h ! self) (drop index (h ! src)))])"
proof (induction "length (h ! src) - index" arbitrary: h index)
  case 0
  then have "\<not> index < length (h ! src)" by simp
  then show ?case by (subst h_load_list.simps) simp
next
  case (Suc n)
  then have lt: "index < length (h ! src)" by simp
  obtain key val where kv: "h ! src ! index = (key, val)" by (cases "h ! src ! index")
  let ?next = "filter (\<lambda>q. \<not> collides key val q) (h ! self) @ [(key, val)]"
  have step: "setitem (h ! self) key val = (Inr (), ?next)" by (rule setitem_eq)
  have src: "h[self := ?next] ! src = h ! src" using Suc.prems by simp
  have n: "n = length (h[self := ?next] ! src) - (index + 1)" using Suc(2) src by simp
  have ih: "h_load_list (h[self := ?next]) self src (index + 1)
      = Some (Inr (), (h[self := ?next])[self := snd (load_pairs (h[self := ?next] ! self)
           (drop (index + 1) (h[self := ?next] ! src)))])"
    using Suc(1)[OF n] Suc.prems by simp
  have dr: "drop index (h ! src) = (key, val) # drop (Suc index) (h ! src)"
    using lt kv by (simp add: Cons_nth_drop_Suc[symmetric])
  show ?case
    using lt Suc.prems ih
    by (subst h_load_list.simps) (simp add: kv step dr)
qed

lemma h_load_list_frame:
  assumes run: "h_load_list h self src index = Some y" and ne: "r \<noteq> self"
  shows "snd y ! r = h ! r"
proof -
  have "\<forall>r. r \<noteq> self \<longrightarrow> snd y ! r = h ! r"
  proof (rule h_load_list.raw_induct
      [where P = "\<lambda>h self src index y. \<forall>r. r \<noteq> self \<longrightarrow> snd y ! r = h ! r", OF _ run])
    fix f h self src index y
    assume ih: "\<And>h self src index y. f h self src index = Some y
        \<Longrightarrow> \<forall>r. r \<noteq> self \<longrightarrow> snd y ! r = h ! r"
      and body: "(if index < length (h ! src) then
        (case h ! src ! index of (key, val) \<Rightarrow>
           (case setitem (h ! self) key val of
              (Inl error, items') \<Rightarrow> Some (Inl error, h[self := items'])
            | (Inr _, items') \<Rightarrow> f (h[self := items']) self src (index + 1)))
      else Some (Inr (), h)) = Some y"
    show "\<forall>r. r \<noteq> self \<longrightarrow> snd y ! r = h ! r"
    proof (cases "index < length (h ! src)")
      case False
      with body show ?thesis by auto
    next
      case True
      obtain key val where kv: "h ! src ! index = (key, val)" by (cases "h ! src ! index")
      let ?next = "filter (\<lambda>q. \<not> collides key val q) (h ! self) @ [(key, val)]"
      have step: "setitem (h ! self) key val = (Inr (), ?next)" by (rule setitem_eq)
      from body True have "f (h[self := ?next]) self src (index + 1) = Some y"
        by (simp add: kv step)
      from ih[OF this] show ?thesis by simp
    qed
  qed
  with ne show ?thesis by simp
qed

lemma call_frame: "r \<noteq> self \<Longrightarrow> snd (call meth h self) ! r = h ! r"
  by (simp add: call_def split: prod.splits)

lemma call_length: "length (snd (call meth h self)) = length h"
  by (simp add: call_def split: prod.splits)

lemma load_args_frame:
  "load_args h self args = Some y \<Longrightarrow> r \<noteq> self \<Longrightarrow> snd y ! r = h ! r"
proof (induction args arbitrary: h)
  case Nil
  then show ?case by auto
next
  case (Cons item args)
  let ?first = "case item of
              ArgDict d \<Rightarrow> Some (call (\<lambda>items. load_pairs items d) h self)
            | ArgList src \<Rightarrow> h_load_list h self src 0
            | ArgSeq entries \<Rightarrow> Some (call (\<lambda>items. load_entries items entries) h self)"
  from Cons.prems(1) obtain res h' where first: "?first = Some (res, h')"
    by (cases ?first) auto
  have same: "h' ! r = h ! r"
  proof (cases item)
    case (ArgDict d)
    with first call_frame[OF Cons.prems(2), of "\<lambda>items. load_pairs items d" h] show ?thesis
      by simp
  next
    case (ArgList src)
    with first h_load_list_frame[OF _ Cons.prems(2), of h src 0 "(res, h')"] show ?thesis
      by simp
  next
    case (ArgSeq entries)
    with first call_frame[OF Cons.prems(2), of "\<lambda>items. load_entries items entries" h]
    show ?thesis by simp
  qed
  show ?case
  proof (cases res)
    case (Inl error)
    with Cons.prems(1) first same show ?thesis by auto
  next
    case (Inr u)
    with Cons.prems(1) first have "load_args h' self args = Some y" by simp
    from Cons.IH[OF this Cons.prems(2)] same show ?thesis by simp
  qed
qed

lemma update_frame:
  "update h self args kwargs = Some y \<Longrightarrow> r \<noteq> self \<Longrightarrow> snd y ! r = h ! r"
proof -
  assume run: "update h self args kwargs = Some y" and ne: "r \<noteq> self"
  from run obtain res h' where c: "load_args h self args = Some (res, h')"
    by (cases "load_args h self args") (auto simp: update_def load_into_dict_def)
  have same: "h' ! r = h ! r" using load_args_frame[OF c ne] by simp
  show ?thesis
  proof (cases res)
    case (Inl error)
    with run c same show ?thesis by (auto simp: update_def load_into_dict_def)
  next
    case (Inr u)
    with run c have "y = call (\<lambda>items. load_pairs items kwargs) h' self"
      by (simp add: update_def load_into_dict_def)
    with call_frame[OF ne, of "\<lambda>items. load_pairs items kwargs" h'] same show ?thesis
      by simp
  qed
qed

lemma load_args_returns:
  "self < length h \<Longrightarrow> ArgList self \<notin> set args \<Longrightarrow>
   \<exists>res h'. load_args h self args = Some (res, h') \<and> length h' = length h"
proof (induction args arbitrary: h)
  case Nil
  then show ?case by simp
next
  case (Cons item args)
  let ?first = "case item of
              ArgDict d \<Rightarrow> Some (call (\<lambda>items. load_pairs items d) h self)
            | ArgList src \<Rightarrow> h_load_list h self src 0
            | ArgSeq entries \<Rightarrow> Some (call (\<lambda>items. load_entries items entries) h self)"
  have "\<exists>res h'. ?first = Some (res, h') \<and> length h' = length h"
  proof (cases item)
    case (ArgDict d)
    then show ?thesis
      using call_length[of "\<lambda>items. load_pairs items d" h self]
      by (cases "call (\<lambda>items. load_pairs items d) h self") simp
  next
    case (ArgList src)
    with Cons.prems have "self \<noteq> src" by auto
    from h_load_list_other[OF Cons.prems(1) this, of 0] ArgList show ?thesis by simp
  next
    case (ArgSeq entries)
    then show ?thesis
      using call_length[of "\<lambda>items. load_entries items entries" h self]
      by (cases "call (\<lambda>items. load_entries items entries) h self") simp
  qed
  then obtain res h' where first: "?first = Some (res, h')" and len: "length h' = length h"
    by blast
  show ?case
  proof (cases res)
    case (Inl error)
    with first len show ?thesis by simp
  next
    case (Inr u)
    from Cons.prems len have "self < length h'" "ArgList self \<notin> set args" by simp_all
    from Cons.IH[OF this] Inr first len show ?thesis by simp
  qed
qed

lemma update_returns:
  "self < length h \<Longrightarrow> ArgList self \<notin> set args \<Longrightarrow> update h self args kwargs \<noteq> None"
proof -
  assume "self < length h" and "ArgList self \<notin> set args"
  from load_args_returns[OF this] obtain res h' where "load_args h self args = Some (res, h')"
    by blast
  then show ?thesis
    by (cases res) (simp_all add: update_def load_into_dict_def)
qed

lemma copy_eq:
  assumes "self < length h" and "well_formed (h ! self)"
  shows "copy h self = Some (Inr (length h), h @ [h ! self])"
proof -
  let ?h0 = "h @ [[]]"
  have ne: "length h \<noteq> self" using assms(1) by simp
  have src: "?h0 ! self = h ! self" using assms(1) by (simp add: nth_append)
  have "h_load_list ?h0 (length h) self 0
      = Some (Inr (), ?h0[length h := snd (load_pairs (?h0 ! length h) (drop 0 (?h0 ! self)))])"
    using ne by (intro h_load_list_other) simp_all
  also have "\<dots> = Some (Inr (), h @ [h ! self])"
    using load_pairs_keeps_well_formed[of "[]" "h ! self"] assms(2) by (simp add: src)
  finally have "h_load_list ?h0 (length h) self 0 = Some (Inr (), h @ [h ! self])" .
  then show ?thesis
    by (simp add: copy_def init_def load_into_dict_def call_def Let_def)
qed

subsection \<open>The claims\<close>







text \<open>
  Claim C3. The scenario: from the empty structure, insert \<open>("a", 1)\<close> and \<open>("b", 2)\<close>;
  then looking up \<open>"a"\<close> gives \<open>1\<close>, looking up \<open>2\<close> gives \<open>"b"\<close> and the length is 2.
  Insert \<open>("a", 3)\<close>; then looking up \<open>3\<close> gives \<open>"a"\<close>, looking up \<open>1\<close> raises
  \<^verbatim>\<open>KeyError(1)\<close> and the length is 2.
\<close>

theorem insert_lookup_scenario:
  "setitem [] (PyStr ''a'') (PyInt 1) = (Inr (), [(PyStr ''a'', PyInt 1)]) \<and>
   setitem [(PyStr ''a'', PyInt 1)] (PyStr ''b'') (PyInt 2)
     = (Inr (), [(PyStr ''a'', PyInt 1), (PyStr ''b'', PyInt 2)]) \<and>
   getitem [(PyStr ''a'', PyInt 1), (PyStr ''b'', PyInt 2)] (PyStr ''a'') = Inr (PyInt 1) \<and>
   getitem [(PyStr ''a'', PyInt 1), (PyStr ''b'', PyInt 2)] (PyInt 2) = Inr (PyStr ''b'') \<and>
   len [(PyStr ''a'', PyInt 1), (PyStr ''b'', PyInt 2)] = 2 \<and>
   setitem [(PyStr ''a'', PyInt 1), (PyStr ''b'', PyInt 2)] (PyStr ''a'') (PyInt 3)
     = (Inr (), [(PyStr ''b'', PyInt 2), (PyStr ''a'', PyInt 3)]) \<and>
   getitem [(PyStr ''b'', PyInt 2), (PyStr ''a'', PyInt 3)] (PyInt 3) = Inr (PyStr ''a'') \<and>
   getitem [(PyStr ''b'', PyInt 2), (PyStr ''a'', PyInt 3)] (PyInt 1) = Inl (KeyError (PyInt 1)) \<and>
   len [(PyStr ''b'', PyInt 2), (PyStr ''a'', PyInt 3)] = 2"
  by (simp add: setitem_eq collides_def getitem_def get_value_def len_def py_eq_def)




text \<open>
  Claim C5. \<^verbatim>\<open>popitem()\<close> on the empty structure raises the \<^verbatim>\<open>KeyError\<close> that says the
  dictionary is empty; on a structure whose last item is \<open>item\<close> it returns \<open>item\<close> and
  leaves the items before it, in their order. After \<^verbatim>\<open>clear()\<close> the length is 0 and
  \<^verbatim>\<open>popitem()\<close> raises that error.
\<close>

theorem popitem_empty_or_last:
  "popitem ([] :: 'a items) = (Inl (KeyError (PyStr ''popitem(): dictionary is empty'')), []) \<and>
   popitem ((items :: 'a items) @ [item]) = (Inr item, items) \<and>
   len (clear items) = 0 \<and>
   popitem (clear items) = (Inl (KeyError (PyStr ''popitem(): dictionary is empty'')), clear items)"
  by (simp add: popitem_def clear_def len_def)



text \<open>
  Claim C7. On a structure that contains \<open>("x", 9)\<close>, \<^verbatim>\<open>update({"x": 1})\<close> returns
  normally, removes every item with \<open>"x"\<close> or \<open>1\<close> as a component, \<open>("x", 9)\<close> among
  them, and appends \<open>("x", 1)\<close>, which is then the last element of \<^verbatim>\<open>items()\<close>.
  \<^verbatim>\<open>update\<close> and \<^verbatim>\<open>__init__\<close> load their arguments by the same
  \<^verbatim>\<open>_load_into_dict\<close>: constructing is updating a new, empty list.
\<close>

theorem update_evicts_then_appends:
  "self < length h \<Longrightarrow> (PyStr ''x'', PyInt 9) \<in> set (dict_items h self) \<Longrightarrow>
   update h self [ArgDict [(PyStr ''x'', PyInt 1)]] []
     = Some (Inr (), h[self := filter (\<lambda>p. \<not> (PyStr ''x'' = fst p \<or> PyStr ''x'' = snd p \<or>
                                       PyInt 1 = fst p \<or> PyInt 1 = snd p)) (dict_items h self)
                           @ [(PyStr ''x'', PyInt 1)]]) \<and>
   (case update h self [ArgDict [(PyStr ''x'', PyInt 1)]] [] of
      None \<Rightarrow> False
    | Some (out, h') \<Rightarrow>
        (PyStr ''x'', PyInt 9) \<notin> set (dict_items h' self) \<and>
        last (dict_items h' self) = (PyStr ''x'', PyInt 1)) \<and>
   init h args kwargs =
     (case update (h @ [[]]) (length h) args kwargs of
        None \<Rightarrow> None
      | Some (Inl error, h') \<Rightarrow> Some (Inl error, h')
      | Some (Inr _, h') \<Rightarrow> Some (Inr (length h), h'))"
proof -
  assume self: "self < length h" and "(PyStr ''x'', PyInt 9) \<in> set (dict_items h self)"
  have same: "collides (PyStr ''x'') (PyInt 1) p
      \<longleftrightarrow> (PyStr ''x'' = fst p \<or> PyStr ''x'' = snd p \<or> PyInt 1 = fst p \<or> PyInt 1 = snd p)"
    for p :: "'a item"
    by (auto simp: collides_def py_eq_def)
  have upd: "update h self [ArgDict [(PyStr ''x'', PyInt 1)]] []
     = Some (Inr (), h[self := filter (\<lambda>p. \<not> (PyStr ''x'' = fst p \<or> PyStr ''x'' = snd p \<or>
                                       PyInt 1 = fst p \<or> PyInt 1 = snd p)) (dict_items h self)
                           @ [(PyStr ''x'', PyInt 1)]])"
    by (simp add: update_def load_into_dict_def call_def setitem_eq same dict_items_def)
  have ini: "init h args kwargs =
     (case update (h @ [[]]) (length h) args kwargs of
        None \<Rightarrow> None
      | Some (Inl error, h') \<Rightarrow> Some (Inl error, h')
      | Some (Inr _, h') \<Rightarrow> Some (Inr (length h), h'))"
    by (simp add: init_def update_def Let_def)
  show ?thesis
    using self ini by (simp add: upd dict_items_def)
qed

theorem update_evicts_then_appends_witness:
  "(0 :: nat) < length [[(PyStr ''x'', PyInt 9), (PyStr ''y'', PyInt 2 :: unit pyobj)]] \<and>
   (PyStr ''x'', PyInt 9)
     \<in> set (dict_items [[(PyStr ''x'', PyInt 9), (PyStr ''y'', PyInt 2 :: unit pyobj)]] 0) \<and>
   update [[(PyStr ''x'', PyInt 9), (PyStr ''y'', PyInt 2 :: unit pyobj)]] 0
       [ArgDict [(PyStr ''x'', PyInt 1)]] []
     = Some (Inr (), [[(PyStr ''y'', PyInt 2), (PyStr ''x'', PyInt 1)]])"
  using update_evicts_then_appends
    [of 0 "[[(PyStr ''x'', PyInt 9), (PyStr ''y'', PyInt 2 :: unit pyobj)]]" "[]" "[]"]
  by (simp add: dict_items_def)

text \<open>
  Claim C8. For an object whose items share no component, \<^verbatim>\<open>copy()\<close> returns a new
  object, at an address no object had, whose \<^verbatim>\<open>items()\<close> is the list of the original, in
  the same order; every object that existed keeps its list. The copy is independent: any
  call of a method on the copy, and \<^verbatim>\<open>update\<close> on the copy with any arguments, leave the list
  of the original as it was. (\<^verbatim>\<open>update\<close> on the copy returns, unless the list of the copy
  itself is among its arguments.)
\<close>

theorem copy_equal_and_independent:
  "self < length h \<Longrightarrow> well_formed (dict_items h self) \<Longrightarrow>
   (case copy h self of
      None \<Rightarrow> False
    | Some (res, h') \<Rightarrow>
      res = Inr (length h) \<and> length h \<noteq> self \<and>
      dict_items h' (length h) = dict_items h self \<and>
      (\<forall>r < length h. dict_items h' r = dict_items h r) \<and>
      dict_items (snd (call meth h' (length h))) self = dict_items h self \<and>
      (case update h' (length h) args kwargs of
         None \<Rightarrow> ArgList (length h) \<in> set args
       | Some (out, h'') \<Rightarrow> dict_items h'' self = dict_items h self))"
proof -
  assume self: "self < length h" and wf: "well_formed (dict_items h self)"
  let ?h' = "h @ [h ! self]"
  have c: "copy h self = Some (Inr (length h), ?h')"
    using self wf by (intro copy_eq) (simp_all add: dict_items_def)
  have ne: "self \<noteq> length h" using self by simp
  have orig: "?h' ! self = h ! self" using self by (simp add: nth_append)
  have m: "snd (call meth ?h' (length h)) ! self = h ! self"
    using call_frame[OF ne, of meth ?h'] orig by simp
  have u: "case update ?h' (length h) args kwargs of
         None \<Rightarrow> ArgList (length h) \<in> set args
       | Some (out, h'') \<Rightarrow> dict_items h'' self = dict_items h self"
  proof (cases "update ?h' (length h) args kwargs")
    case None
    have "length h < length ?h'" by simp
    from update_returns[OF this, of args kwargs] None show ?thesis by auto
  next
    case (Some y)
    from update_frame[OF Some ne] orig Some show ?thesis
      by (auto simp: dict_items_def split: prod.splits)
  qed
  show ?thesis
    using self m u by (simp add: c dict_items_def nth_append)
qed

theorem copy_equal_and_independent_witness:
  "(0 :: nat) < length [[(PyStr ''a'', PyInt 1), (PyStr ''b'', PyInt 2 :: unit pyobj)]] \<and>
   well_formed (dict_items [[(PyStr ''a'', PyInt 1), (PyStr ''b'', PyInt 2 :: unit pyobj)]] 0) \<and>
   (case copy [[(PyStr ''a'', PyInt 1), (PyStr ''b'', PyInt 2 :: unit pyobj)]] 0 of
      None \<Rightarrow> False
    | Some (res, h') \<Rightarrow>
        res = Inr 1 \<and>
        dict_items h' 1 = [(PyStr ''a'', PyInt 1), (PyStr ''b'', PyInt 2)] \<and>
        dict_items (snd (call (\<lambda>items. setitem items (PyStr ''a'') (PyInt 5)) h' 1)) 0
          = [(PyStr ''a'', PyInt 1), (PyStr ''b'', PyInt 2)])"
  using copy_equal_and_independent
    [of 0 "[[(PyStr ''a'', PyInt 1), (PyStr ''b'', PyInt 2 :: unit pyobj)]]"
        "\<lambda>items. setitem items (PyStr ''a'') (PyInt 5)" "[]" "[]"]
  by (simp add: dict_items_def py_eq_def copy_def init_def update_def load_into_dict_def
        call_def h_load_list.simps setitem_eq collides_def Let_def)

text \<open>
  Claim C9. For every integer \<open>s \<ge> 0\<close>, \<^verbatim>\<open>get_time(s)\<close> has the keys days, hours,
  minutes and seconds, with \<open>0 \<le> hours < 24\<close>, \<open>0 \<le> minutes < 60\<close>,
  \<open>0 \<le> seconds < 60\<close> and \<open>days * 86400 + hours * 3600 + minutes * 60 + seconds = s\<close>.
\<close>

theorem get_time_decomposition:
  "0 \<le> s \<Longrightarrow>
   \<exists>days hours minutes seconds.
     get_time s ''days'' = Some days \<and> get_time s ''hours'' = Some hours \<and>
     get_time s ''minutes'' = Some minutes \<and> get_time s ''seconds'' = Some seconds \<and>
     0 \<le> hours \<and> hours < 24 \<and> 0 \<le> minutes \<and> minutes < 60 \<and> 0 \<le> seconds \<and> seconds < 60 \<and>
     days * 86400 + hours * 3600 + minutes * 60 + seconds = s"
proof -
  let ?r = "s mod 86400"
  let ?q = "?r mod 3600"
  have lookups: "get_time s ''days'' = Some (s div 86400)"
    "get_time s ''hours'' = Some (?r div 3600)"
    "get_time s ''minutes'' = Some (?q div 60)"
    "get_time s ''seconds'' = Some (?q mod 60)"
    by (simp_all add: get_time_def)
  have r: "0 \<le> ?r" "?r < 86400" by simp_all
  have q: "0 \<le> ?q" "?q < 3600" by simp_all
  have h: "0 \<le> ?r div 3600" "?r div 3600 < 24"
    using r by (simp_all add: div_less_iff_less_mult pos_imp_zdiv_nonneg_iff)
  have m: "0 \<le> ?q div 60" "?q div 60 < 60"
    using q by (simp_all add: div_less_iff_less_mult pos_imp_zdiv_nonneg_iff)
  have sec: "0 \<le> ?q mod 60" "?q mod 60 < 60" by simp_all
  have e1: "s = 86400 * (s div 86400) + ?r" by simp
  have e2: "?r = 3600 * (?r div 3600) + ?q" by simp
  have e3: "?q = 60 * (?q div 60) + ?q mod 60" by simp
  have total: "(s div 86400) * 86400 + (?r div 3600) * 3600 + (?q div 60) * 60 + ?q mod 60 = s"
    using e1 e2 e3 by linarith
  show ?thesis
    using lookups h m sec total by blast
qed

theorem get_time_decomposition_witness:
  "(0::int) \<le> 93784 \<and> get_time 93784 ''days'' = Some 1 \<and> get_time 93784 ''hours'' = Some 2 \<and>
     get_time 93784 ''minutes'' = Some 3 \<and> get_time 93784 ''seconds'' = Some 4"
  using get_time_decomposition[of 93784] by (simp add: get_time_def)



end
